theory Spec2Isabelle
  imports Complex_Main
begin

section \<open>Lead qualification (services/qualification.py)\<close>

text \<open>
  The enum \<^verbatim>\<open>QualificationStatus\<close> of models.py. The optional arguments of the two
  functions are options: \<^verbatim>\<open>None\<close> is \<open>None\<close>, and \<^verbatim>\<open>has_budget is False\<close> holds
  exactly for \<open>Some False\<close>.
\<close>

datatype QualificationStatus = QUALIFIED | DISQUALIFIED | PENDING

text \<open>
  \<^verbatim>\<open>determine_qualification_status\<close>: the chain of early returns, in the order of the
  source; the last test and the default both return PENDING.
\<close>

definition determine_qualification_status ::
  "bool option \<Rightarrow> string option \<Rightarrow> string option \<Rightarrow> QualificationStatus" where
  "determine_qualification_status has_budget budget_range urgency =
     (if has_budget = Some False then DISQUALIFIED
      else if budget_range = Some ''under-5k'' then DISQUALIFIED
      else if budget_range \<in> set [Some ''15k-30k'', Some ''over-30k''] then QUALIFIED
      else if urgency \<in> set [Some ''immediate'', Some ''within-month''] then QUALIFIED
      else if budget_range = Some ''5k-15k'' \<or> urgency = Some ''few-months'' then PENDING
      else PENDING)"

text \<open>\<^verbatim>\<open>get_disqualification_reason\<close>: a fixed text for each of the first two rules.\<close>

definition get_disqualification_reason ::
  "bool option \<Rightarrow> string option \<Rightarrow> string option \<Rightarrow> string option" where
  "get_disqualification_reason has_budget budget_range urgency =
     (if has_budget = Some False then Some ''No budget allocated for treatment''
      else if budget_range = Some ''under-5k'' then Some ''Budget below minimum treatment cost''
      else None)"

section \<open>Input sanitisation (utils/sanitizer.py)\<close>

text \<open>
  Text is a list of characters, one \<^typ>\<open>char\<close> per code point; the model covers
  text whose code points lie below 256. On that range the classes used by the source
  are as follows: \<^verbatim>\<open>str.isspace\<close>, \<^verbatim>\<open>str.strip\<close> and the pattern class
  \<^verbatim>\<open>\s\<close> accept the code points 9 to 13, 28 to 32, 133 and 160; \<^verbatim>\<open>\d\<close> accepts
  the ten digits; \<^verbatim>\<open>\w\<close> accepts the alphanumeric code points and the underscore.
  Under \<^verbatim>\<open>re.IGNORECASE\<close> a letter of the pattern matches its two cases only.
\<close>

definition py_isspace :: "char \<Rightarrow> bool" where
  "py_isspace c = ((of_char c :: nat) \<in> set [9, 10, 11, 12, 13, 28, 29, 30, 31, 32, 133, 160])"

definition py_isdecimal :: "char \<Rightarrow> bool" where
  "py_isdecimal c = (48 \<le> (of_char c :: nat) \<and> (of_char c :: nat) \<le> 57)"

definition py_isword :: "char \<Rightarrow> bool" where
  "py_isword c =
     (let n = (of_char c :: nat) in
        (48 \<le> n \<and> n \<le> 57) \<or> (65 \<le> n \<and> n \<le> 90) \<or> n = 95 \<or> (97 \<le> n \<and> n \<le> 122)
        \<or> n \<in> set [170, 178, 179, 181, 185, 186, 188, 189, 190]
        \<or> (192 \<le> n \<and> n \<le> 214) \<or> (216 \<le> n \<and> n \<le> 246) \<or> 248 \<le> n)"

text \<open>
  A literal of a pattern, matched without regard to case at the start of the text; the
  result is the text after the match.
\<close>

definition ascii_lower :: "char \<Rightarrow> char" where
  "ascii_lower c =
     (let n = (of_char c :: nat) in if 65 \<le> n \<and> n \<le> 90 then char_of (n + 32) else c)"

fun match_literal_ci :: "string \<Rightarrow> string \<Rightarrow> string option" where
  "match_literal_ci [] s = Some s"
| "match_literal_ci (p # ps) [] = None"
| "match_literal_ci (p # ps) (c # cs) =
     (if ascii_lower p = ascii_lower c then match_literal_ci ps cs else None)"

text \<open>
  \<^verbatim>\<open>s.strip()\<close>, the slice \<^verbatim>\<open>s[:n]\<close> (a negative \<open>n\<close> counts from the end), and
  \<^verbatim>\<open>html.escape\<close>, which replaces the ampersand first and then the two angle brackets
  and the two quotes.
\<close>

definition py_strip :: "string \<Rightarrow> string" where
  "py_strip s = rev (dropWhile py_isspace (rev (dropWhile py_isspace s)))"

definition py_slice_to :: "int \<Rightarrow> 'a list \<Rightarrow> 'a list" where
  "py_slice_to n xs =
     (if 0 \<le> n then take (nat n) xs else take (length xs - nat (- n)) xs)"

definition str_replace_char :: "char \<Rightarrow> string \<Rightarrow> string \<Rightarrow> string" where
  "str_replace_char c r s = concat (map (\<lambda>x. if x = c then r else [x]) s)"

definition html_escape :: "string \<Rightarrow> string" where
  "html_escape s =
     str_replace_char (CHR 0x27) ''&#x27;''
       (str_replace_char (CHR 0x22) ''&quot;''
         (str_replace_char CHR ''>'' ''&gt;''
           (str_replace_char CHR ''<'' ''&lt;''
             (str_replace_char CHR ''&'' ''&amp;'' s))))"

text \<open>
  The pattern \<^verbatim>\<open><script[^>]*>.*?</script>\<close> with the flags IGNORECASE and DOTALL, matched
  at the start of the text. After the opening literal, \<^verbatim>\<open>[^>]*\<close> takes every character
  up to the first \<^verbatim>\<open>>\<close>, which must be there (a shorter choice would leave a character
  other than \<^verbatim>\<open>>\<close> in its place); the lazy \<^verbatim>\<open>.*?\<close> then stops at the first closing
  tag. The result is the text after the match.
\<close>

fun find_script_close :: "string \<Rightarrow> string option" where
  "find_script_close [] = None"
| "find_script_close (c # cs) =
     (case match_literal_ci ''</script>'' (c # cs) of
        Some r \<Rightarrow> Some r
      | None \<Rightarrow> find_script_close cs)"

definition match_script :: "string \<Rightarrow> string option" where
  "match_script s =
     (case match_literal_ci ''<script'' s of
        None \<Rightarrow> None
      | Some r \<Rightarrow>
          (case dropWhile (\<lambda>c. c \<noteq> CHR ''>'') r of
             [] \<Rightarrow> None
           | g # r' \<Rightarrow> find_script_close r'))"

text \<open>
  The pattern \<^verbatim>\<open>on\w+\s*=\s*["']?[^"']*["']?\<close> with the flag IGNORECASE, matched at the
  start of the text: the letters \<^verbatim>\<open>on\<close>, the longest run of word characters, which
  must not be empty, the longest run of whitespace and an equals sign (a shorter run
  would leave a word or whitespace character in the place of the sign). Every part
  after the sign may be empty, so each takes as much as it can: whitespace, one quote,
  the characters up to the next quote, one quote.
\<close>

definition is_quote :: "char \<Rightarrow> bool" where
  "is_quote c = (c = CHR 0x22 \<or> c = CHR 0x27)"

definition skip_optional_quote :: "string \<Rightarrow> string" where
  "skip_optional_quote s = (case s of [] \<Rightarrow> [] | c # cs \<Rightarrow> if is_quote c then cs else c # cs)"

definition match_event_handler :: "string \<Rightarrow> string option" where
  "match_event_handler s =
     (case match_literal_ci ''on'' s of
        None \<Rightarrow> None
      | Some r \<Rightarrow>
          if takeWhile py_isword r = [] then None
          else (case dropWhile py_isspace (dropWhile py_isword r) of
                  [] \<Rightarrow> None
                | e # r' \<Rightarrow>
                    if e \<noteq> CHR ''='' then None
                    else Some (skip_optional_quote
                                 (dropWhile (\<lambda>c. \<not> is_quote c)
                                    (skip_optional_quote (dropWhile py_isspace r'))))))"

text \<open>A match consumes at least one character, so replacing matches terminates.\<close>

lemma match_literal_ci_length:
  "match_literal_ci p s = Some r \<Longrightarrow> length r + length p = length s"
  by (induction p s rule: match_literal_ci.induct) (auto split: if_splits)

lemma find_script_close_length:
  "find_script_close s = Some r \<Longrightarrow> length r < length s"
proof (induction s arbitrary: r)
  case Nil
  then show ?case by simp
next
  case (Cons c cs)
  show ?case
  proof (cases "match_literal_ci ''</script>'' (c # cs)")
    case None
    with Cons.prems have "find_script_close cs = Some r"
      by (simp del: match_literal_ci.simps)
    from Cons.IH [OF this] show ?thesis by simp
  next
    case (Some r')
    with Cons.prems have "r' = r"
      by (simp del: match_literal_ci.simps)
    with match_literal_ci_length [OF Some] show ?thesis by simp
  qed
qed

lemma match_script_shorter: "match_script s = Some r \<Longrightarrow> length r < length s"
proof -
  assume m: "match_script s = Some r"
  then obtain r0 where a: "match_literal_ci ''<script'' s = Some r0"
    by (auto simp: match_script_def split: option.splits)
  with m obtain g r1 where b: "dropWhile (\<lambda>c. c \<noteq> CHR ''>'') r0 = g # r1"
    and c: "find_script_close r1 = Some r"
    by (auto simp: match_script_def split: list.splits)
  have "length (g # r1) \<le> length r0"
    using length_dropWhile_le [of "\<lambda>c. c \<noteq> CHR ''>''" r0] b by simp
  moreover have "length r0 \<le> length s"
    using match_literal_ci_length [OF a] by simp
  moreover have "length r < length r1"
    using find_script_close_length [OF c] .
  ultimately show ?thesis by simp
qed

lemma skip_optional_quote_length: "length (skip_optional_quote s) \<le> length s"
  by (simp add: skip_optional_quote_def split: list.splits)

lemma match_event_handler_shorter:
  "match_event_handler s = Some r \<Longrightarrow> length r < length s"
proof -
  assume m: "match_event_handler s = Some r"
  then obtain r0 where a: "match_literal_ci ''on'' s = Some r0"
    by (auto simp: match_event_handler_def split: option.splits)
  with m obtain e r1 where
    b: "dropWhile py_isspace (dropWhile py_isword r0) = e # r1"
    and c: "r = skip_optional_quote (dropWhile (\<lambda>c. \<not> is_quote c)
                 (skip_optional_quote (dropWhile py_isspace r1)))"
    by (auto simp: match_event_handler_def split: list.splits if_splits)
  have "length (e # r1) \<le> length r0"
    using length_dropWhile_le [of py_isspace "dropWhile py_isword r0"]
      length_dropWhile_le [of py_isword r0] b by simp
  moreover have "length r0 \<le> length s"
    using match_literal_ci_length [OF a] by simp
  moreover have "length r \<le> length r1"
    unfolding c
    using skip_optional_quote_length [of "dropWhile (\<lambda>c. \<not> is_quote c)
                 (skip_optional_quote (dropWhile py_isspace r1))"]
      length_dropWhile_le [of "\<lambda>c. \<not> is_quote c" "skip_optional_quote (dropWhile py_isspace r1)"]
      skip_optional_quote_length [of "dropWhile py_isspace r1"]
      length_dropWhile_le [of py_isspace r1]
    by linarith
  ultimately show ?thesis by simp
qed

text \<open>
  \<^verbatim>\<open>re.sub(pattern, '', text)\<close>: the text is scanned from the left; where the pattern
  matches, the match is dropped and the scan goes on after it, and elsewhere the
  character is kept.
\<close>

function re_sub_script :: "string \<Rightarrow> string" where
  "re_sub_script [] = []"
| "re_sub_script (c # cs) =
     (case match_script (c # cs) of
        Some r \<Rightarrow> re_sub_script r
      | None \<Rightarrow> c # re_sub_script cs)"
  by pat_completeness auto
termination
  by (relation "measure length") (auto dest: match_script_shorter)

function re_sub_event_handler :: "string \<Rightarrow> string" where
  "re_sub_event_handler [] = []"
| "re_sub_event_handler (c # cs) =
     (case match_event_handler (c # cs) of
        Some r \<Rightarrow> re_sub_event_handler r
      | None \<Rightarrow> c # re_sub_event_handler cs)"
  by pat_completeness auto
termination
  by (relation "measure length") (auto dest: match_event_handler_shorter)

text \<open>
  \<^verbatim>\<open>sanitize_text\<close>: an empty text is returned at once; otherwise the text is cut to
  \<open>max_length\<close>, escaped, cleared of both patterns and stripped.
\<close>

definition sanitize_text :: "string \<Rightarrow> int \<Rightarrow> string" where
  "sanitize_text text max_length =
     (if text = [] then []
      else py_strip (re_sub_event_handler (re_sub_script
             (html_escape (py_slice_to max_length text)))))"

text \<open>
  \<^verbatim>\<open>sanitize_phone\<close>: the characters outside the class \<^verbatim>\<open>[\d\s\-\+\(\)]\<close> are
  removed; the last line of the source returns the stripped text only when the text
  left by the removal is not empty, and \<^verbatim>\<open>None\<close> otherwise.
\<close>

definition phone_char_kept :: "char \<Rightarrow> bool" where
  "phone_char_kept c =
     (py_isdecimal c \<or> py_isspace c \<or> c = CHR ''-'' \<or> c = CHR ''+''
      \<or> c = CHR ''('' \<or> c = CHR '')'')"

definition sanitize_phone :: "string option \<Rightarrow> string option" where
  "sanitize_phone phone =
     (case phone of
        None \<Rightarrow> None
      | Some p \<Rightarrow>
          if p = [] then None
          else (let p' = filter phone_char_kept p
                in if p' \<noteq> [] then Some (py_strip p') else None))"

section \<open>CSRF tokens (routers/csrf.py)\<close>

text \<open>
  The module-level dictionary \<^verbatim>\<open>csrf_tokens\<close> maps the digest of a token to its
  expiry; every function takes the dictionary and returns the updated one. An instant
  is a number of microseconds, the resolution of \<^verbatim>\<open>datetime\<close>. What the functions
  read from their environment is an argument: the digest function \<open>sha256\<close> (for
  \<^verbatim>\<open>hashlib.sha256(token.encode()).hexdigest()\<close>), the token drawn by
  \<^verbatim>\<open>secrets.token_urlsafe(32)\<close>, and each reading of \<^verbatim>\<open>datetime.utcnow()\<close>: one
  in \<^verbatim>\<open>clean_expired_tokens\<close>, a later one for the expiry. The argument of
  \<^verbatim>\<open>verify_csrf_token\<close> is an option, since \<^verbatim>\<open>not token\<close> holds for \<^verbatim>\<open>None\<close> as
  for the empty text. The field \<open>body_expiresAt\<close> holds the instant that the handler
  prints in ISO format.
\<close>

type_synonym csrf_store = "string \<rightharpoonup> int"

definition TOKEN_EXPIRY_MINUTES :: int where
  "TOKEN_EXPIRY_MINUTES = 30"

definition timedelta_minutes :: "int \<Rightarrow> int" where
  "timedelta_minutes m = m * 60000000"

text \<open>\<^verbatim>\<open>clean_expired_tokens\<close> deletes every entry whose expiry is before the current time.\<close>

definition clean_expired_tokens :: "int \<Rightarrow> csrf_store \<Rightarrow> csrf_store" where
  "clean_expired_tokens current_time csrf_tokens =
     (\<lambda>token_hash.
        case csrf_tokens token_hash of
          None \<Rightarrow> None
        | Some expiry \<Rightarrow> if expiry < current_time then None else Some expiry)"

text \<open>
  \<^verbatim>\<open>generate_csrf_token\<close> cleans the store, then stores the digest of the new token with
  the expiry, 30 minutes after the second reading of the clock.
\<close>

definition generate_csrf_token ::
  "(string \<Rightarrow> string) \<Rightarrow> string \<Rightarrow> int \<Rightarrow> int \<Rightarrow> csrf_store \<Rightarrow> (string \<times> int) \<times> csrf_store" where
  "generate_csrf_token sha256 token now_clean now_issue csrf_tokens =
     (let cleaned = clean_expired_tokens now_clean csrf_tokens;
          expiry = now_issue + timedelta_minutes TOKEN_EXPIRY_MINUTES;
          token_hash = sha256 token
      in ((token, expiry), cleaned(token_hash \<mapsto> expiry)))"

text \<open>
  The handlers \<^verbatim>\<open>get_csrf_token\<close> and \<^verbatim>\<open>refresh_csrf_token\<close>; the second calls the
  first and does nothing else.
\<close>

record cookie =
  cookie_key :: string
  cookie_value :: string
  max_age :: int
  httponly :: bool
  secure :: bool
  samesite :: string

record csrf_response =
  body_token :: string
  body_expiresAt :: int
  set_cookie :: cookie

definition get_csrf_token ::
  "(string \<Rightarrow> string) \<Rightarrow> string \<Rightarrow> int \<Rightarrow> int \<Rightarrow> csrf_store \<Rightarrow> csrf_response \<times> csrf_store" where
  "get_csrf_token sha256 token now_clean now_issue csrf_tokens =
     (case generate_csrf_token sha256 token now_clean now_issue csrf_tokens of
        ((tok, expiry), store) \<Rightarrow>
          (\<lparr>body_token = tok, body_expiresAt = expiry,
            set_cookie = \<lparr>cookie_key = ''csrf_token'', cookie_value = tok,
                           max_age = TOKEN_EXPIRY_MINUTES * 60, httponly = True,
                           secure = True, samesite = ''strict''\<rparr>\<rparr>,
           store))"

definition refresh_csrf_token ::
  "(string \<Rightarrow> string) \<Rightarrow> string \<Rightarrow> int \<Rightarrow> int \<Rightarrow> csrf_store \<Rightarrow> csrf_response \<times> csrf_store" where
  "refresh_csrf_token sha256 token now_clean now_issue csrf_tokens =
     get_csrf_token sha256 token now_clean now_issue csrf_tokens"

text \<open>\<^verbatim>\<open>verify_csrf_token\<close>: four early answers, and the deletion of an expired entry.\<close>

definition verify_csrf_token ::
  "(string \<Rightarrow> string) \<Rightarrow> string option \<Rightarrow> int \<Rightarrow> csrf_store \<Rightarrow> bool \<times> csrf_store" where
  "verify_csrf_token sha256 token now csrf_tokens =
     (case token of
        None \<Rightarrow> (False, csrf_tokens)
      | Some t \<Rightarrow>
          if t = [] then (False, csrf_tokens)
          else (let token_hash = sha256 t
                in case csrf_tokens token_hash of
                     None \<Rightarrow> (False, csrf_tokens)
                   | Some expiry \<Rightarrow>
                       if expiry < now then (False, csrf_tokens(token_hash := None))
                       else (True, csrf_tokens)))"

section \<open>Rate limiter (middleware/rate_limiter.py, config.py)\<close>

text \<open>
  The settings are read from the environment, so they are a record given to every
  function; \<open>default_settings\<close> holds the defaults of config.py. The limiter object is
  a record of its two attributes and each method returns the updated object. A reading
  of \<^verbatim>\<open>time.time()\<close> is an argument \<open>now\<close>. \<^verbatim>\<open>int\<close> truncates towards zero, and
  \<^verbatim>\<open>min\<close> of an empty list raises \<^verbatim>\<open>ValueError\<close>, which is the \<open>Inl\<close> result here.
\<close>

text \<open>
  Timestamps are binary64 floating-point numbers. A finite one is the rational it
  denotes, and comparisons are exact. Addition and subtraction give the exact result
  rounded to the nearest representable number, ties to the even significand:
  \<open>double_round\<close> finds the binary exponent of its argument (not below -1022, where
  the subnormal numbers begin), and rounds to a multiple of the spacing at that
  exponent, 52 binary places further down. Results beyond the largest finite number
  are not covered. The window length 900 is converted exactly.
\<close>

definition pow2 :: "int \<Rightarrow> rat" where
  "pow2 k = (if 0 \<le> k then 2 ^ nat k else 1 / 2 ^ nat (- k))"

function bit_length :: "int \<Rightarrow> int" where
  "bit_length n = (if n \<le> 0 then 0 else 1 + bit_length (n div 2))"
  by pat_completeness auto
termination
  by (relation "measure nat") auto

definition ilog2 :: "rat \<Rightarrow> int" where
  "ilog2 x =
     (case quotient_of x of
        (p, q) \<Rightarrow>
          (let k = bit_length p - bit_length q
           in if pow2 k \<le> x then k else k - 1))"

definition round_half_even :: "rat \<Rightarrow> int" where
  "round_half_even x =
     (let f = \<lfloor>x\<rfloor>; r = x - of_int f
      in if r < 1 / 2 then f else if 1 / 2 < r then f + 1 else if even f then f else f + 1)"

definition double_round :: "rat \<Rightarrow> rat" where
  "double_round x =
     (if x = 0 then 0
      else (let e = max (ilog2 \<bar>x\<bar>) (- 1022); q = pow2 (e - 52)
            in of_int (round_half_even (x / q)) * q))"

definition double_add :: "rat \<Rightarrow> rat \<Rightarrow> rat" where
  "double_add x y = double_round (x + y)"

definition double_sub :: "rat \<Rightarrow> rat \<Rightarrow> rat" where
  "double_sub x y = double_round (x - y)"

record settings =
  RATE_LIMIT_ENABLED :: bool
  RATE_LIMIT_SUBMIT_ASSESSMENT :: int
  RATE_LIMIT_SAVE_PROGRESS :: int
  RATE_LIMIT_SEND_EMAIL :: int
  RATE_LIMIT_HEALTH :: int

definition default_settings :: settings where
  "default_settings =
     \<lparr>RATE_LIMIT_ENABLED = True, RATE_LIMIT_SUBMIT_ASSESSMENT = 5,
      RATE_LIMIT_SAVE_PROGRESS = 30, RATE_LIMIT_SEND_EMAIL = 3, RATE_LIMIT_HEALTH = 100\<rparr>"

record RateLimiter =
  requests :: "string \<rightharpoonup> rat list"
  window_seconds :: rat

definition RateLimiter_init :: RateLimiter where
  "RateLimiter_init = \<lparr>requests = Map.empty, window_seconds = 900\<rparr>"

datatype py_error = ValueError

text \<open>\<^verbatim>\<open>p in s\<close> for texts: \<open>p\<close> occurs in \<open>s\<close> as a contiguous part.\<close>

fun str_startswith :: "string \<Rightarrow> string \<Rightarrow> bool" where
  "str_startswith [] s = True"
| "str_startswith (p # ps) [] = False"
| "str_startswith (p # ps) (c # cs) = (p = c \<and> str_startswith ps cs)"

fun str_contains :: "string \<Rightarrow> string \<Rightarrow> bool" where
  "str_contains p [] = (p = [])"
| "str_contains p (c # cs) = (str_startswith p (c # cs) \<or> str_contains p cs)"

text \<open>\<^verbatim>\<open>get_limit\<close>: the first path that occurs in the endpoint decides; the default is 60.\<close>

definition get_limit :: "settings \<Rightarrow> string \<Rightarrow> int" where
  "get_limit cfg endpoint =
     (if str_contains ''/api/assessment/submit'' endpoint then RATE_LIMIT_SUBMIT_ASSESSMENT cfg
      else if str_contains ''/api/assessment/save-progress'' endpoint
        then RATE_LIMIT_SAVE_PROGRESS cfg
      else if str_contains ''/api/email/send-results'' endpoint then RATE_LIMIT_SEND_EMAIL cfg
      else if str_contains ''/health'' endpoint then RATE_LIMIT_HEALTH cfg
      else 60)"

text \<open>
  The key \<^verbatim>\<open>f"{ip}:{endpoint}"\<close>, the conversion \<^verbatim>\<open>int(x)\<close>, \<^verbatim>\<open>min(xs)\<close>, and the
  pruning of a window to the timestamps later than its start.
\<close>

definition rate_key :: "string \<Rightarrow> string \<Rightarrow> string" where
  "rate_key ip endpoint = ip @ '':'' @ endpoint"

definition py_int :: "rat \<Rightarrow> int" where
  "py_int x = (if 0 \<le> x then \<lfloor>x\<rfloor> else \<lceil>x\<rceil>)"

definition py_min :: "rat list \<Rightarrow> py_error + rat" where
  "py_min xs = (case xs of [] \<Rightarrow> Inl ValueError | x # rest \<Rightarrow> Inr (fold min rest x))"

definition in_window :: "rat \<Rightarrow> rat list \<Rightarrow> rat list" where
  "in_window window_start reqs = filter (\<lambda>req_time. req_time > window_start) reqs"

text \<open>
  \<^verbatim>\<open>check_rate_limit\<close>. A key that is not in the dictionary is given the empty list
  before the window is pruned, so the list read for a key is \<open>stored_requests\<close>. The
  pruned list is stored in every branch that is reached with rate limiting enabled.
\<close>

definition stored_requests :: "RateLimiter \<Rightarrow> string \<Rightarrow> rat list" where
  "stored_requests self key = (case requests self key of None \<Rightarrow> [] | Some reqs \<Rightarrow> reqs)"

definition check_rate_limit ::
  "settings \<Rightarrow> rat \<Rightarrow> string \<Rightarrow> string \<Rightarrow> RateLimiter
     \<Rightarrow> (py_error + bool \<times> int) \<times> RateLimiter" where
  "check_rate_limit cfg now ip endpoint self =
     (if \<not> RATE_LIMIT_ENABLED cfg then (Inr (True, 0), self)
      else
        (let limit = get_limit cfg endpoint;
             key = rate_key ip endpoint;
             window_start = double_sub now (window_seconds self);
             stored = stored_requests self key;
             kept = in_window window_start stored
         in if limit \<le> int (length kept) then
              (case py_min kept of
                 Inl e \<Rightarrow> (Inl e, self\<lparr>requests := (requests self)(key \<mapsto> kept)\<rparr>)
               | Inr oldest_request \<Rightarrow>
                   (let retry_after =
                          py_int (double_sub (double_add oldest_request (window_seconds self)) now)
                    in (Inr (False, max retry_after 0),
                        self\<lparr>requests := (requests self)(key \<mapsto> kept)\<rparr>)))
            else (Inr (True, 0),
                  self\<lparr>requests := (requests self)(key \<mapsto> kept @ [now])\<rparr>)))"

text \<open>
  \<^verbatim>\<open>get_remaining\<close> returns the limit itself for a key that is not in the dictionary,
  and prunes the stored window otherwise.
\<close>

definition get_remaining ::
  "settings \<Rightarrow> rat \<Rightarrow> string \<Rightarrow> string \<Rightarrow> RateLimiter \<Rightarrow> int \<times> RateLimiter" where
  "get_remaining cfg now ip endpoint self =
     (let key = rate_key ip endpoint;
          limit = get_limit cfg endpoint
      in case requests self key of
           None \<Rightarrow> (limit, self)
         | Some reqs \<Rightarrow>
             (let window_start = double_sub now (window_seconds self);
                  kept = in_window window_start reqs
              in (max (limit - int (length kept)) 0,
                  self\<lparr>requests := (requests self)(key \<mapsto> kept)\<rparr>)))"

text \<open>Successive calls for one client and endpoint, one for each reading of the clock.\<close>

fun check_rate_limit_calls ::
  "settings \<Rightarrow> string \<Rightarrow> string \<Rightarrow> rat list \<Rightarrow> RateLimiter
     \<Rightarrow> (py_error + bool \<times> int) list \<times> RateLimiter" where
  "check_rate_limit_calls cfg ip endpoint [] self = ([], self)"
| "check_rate_limit_calls cfg ip endpoint (now # later) self =
     (case check_rate_limit cfg now ip endpoint self of
        (r, self') \<Rightarrow>
          (case check_rate_limit_calls cfg ip endpoint later self' of
             (rs, self'') \<Rightarrow> (r # rs, self'')))"

section \<open>Properties of the qualification rules\<close>

text \<open>
  Claim C1. The rules are tried in a fixed order. An explicit \<^verbatim>\<open>False\<close> for the budget
  flag gives DISQUALIFIED whatever the budget range and the urgency are, in particular for
  the range 15k-30k with urgency immediate. When the flag is not \<^verbatim>\<open>False\<close> and the range is
  under-5k the verdict is DISQUALIFIED too, also for urgency immediate: the second rule is
  tried before the fourth.
\<close>

theorem classify_rule_precedence:
  "determine_qualification_status (Some False) budget_range urgency = DISQUALIFIED
   \<and> determine_qualification_status (Some False) (Some ''15k-30k'') (Some ''immediate'')
       = DISQUALIFIED
   \<and> (has_budget \<noteq> Some False \<longrightarrow>
        determine_qualification_status has_budget (Some ''under-5k'') urgency = DISQUALIFIED)
   \<and> (has_budget \<noteq> Some False \<longrightarrow>
        determine_qualification_status has_budget (Some ''under-5k'') (Some ''immediate'')
          = DISQUALIFIED)"
  by (simp add: determine_qualification_status_def)

theorem classify_rule_precedence_witness:
  "(None :: bool option) \<noteq> Some False
   \<and> determine_qualification_status None (Some ''under-5k'') (Some ''immediate'')
       = DISQUALIFIED
   \<and> determine_qualification_status (Some False) (Some ''15k-30k'') (Some ''immediate'')
       = DISQUALIFIED"
  using classify_rule_precedence [of "Some ''15k-30k''" "Some ''immediate''" None]
  by simp

text \<open>
  Claim C2. The reason is a non-empty text exactly when the verdict on the same three
  inputs is DISQUALIFIED; for a QUALIFIED or PENDING verdict there is no reason.
\<close>

theorem reason_iff_disqualified:
  "((\<exists>r. get_disqualification_reason has_budget budget_range urgency = Some r \<and> r \<noteq> [])
      \<longleftrightarrow> determine_qualification_status has_budget budget_range urgency = DISQUALIFIED)
   \<and> (determine_qualification_status has_budget budget_range urgency \<in> {QUALIFIED, PENDING}
        \<longrightarrow> get_disqualification_reason has_budget budget_range urgency = None)"
  by (simp add: determine_qualification_status_def get_disqualification_reason_def)

theorem reason_iff_disqualified_witness:
  "determine_qualification_status None (Some ''over-30k'') None \<in> {QUALIFIED, PENDING}
   \<and> get_disqualification_reason None (Some ''over-30k'') None = None
   \<and> determine_qualification_status (Some True) (Some ''under-5k'') None = DISQUALIFIED
   \<and> get_disqualification_reason (Some True) (Some ''under-5k'') None
       = Some ''Budget below minimum treatment cost''"
  using reason_iff_disqualified [of None "Some ''over-30k''" None]
    reason_iff_disqualified [of "Some True" "Some ''under-5k''" None]
  by (simp add: determine_qualification_status_def get_disqualification_reason_def)

section \<open>Properties of the sanitiser\<close>

lemma str_replace_char_notin:
  "x \<notin> set s \<Longrightarrow> x \<notin> set r \<Longrightarrow> x \<notin> set (str_replace_char c r s)"
  by (induction s) (auto simp: str_replace_char_def)

lemma str_replace_char_removes:
  "c \<notin> set r \<Longrightarrow> c \<notin> set (str_replace_char c r s)"
  by (induction s) (auto simp: str_replace_char_def)

lemma html_escape_no_lt: "CHR ''<'' \<notin> set (html_escape s)"
proof -
  have "CHR ''<'' \<notin> set (str_replace_char CHR ''<'' ''&lt;'' (str_replace_char CHR ''&'' ''&amp;'' s))"
    by (rule str_replace_char_removes) simp
  then have "CHR ''<'' \<notin> set (str_replace_char CHR ''>'' ''&gt;''
      (str_replace_char CHR ''<'' ''&lt;'' (str_replace_char CHR ''&'' ''&amp;'' s)))"
    by (rule str_replace_char_notin) simp
  then have "CHR ''<'' \<notin> set (str_replace_char (CHR 0x22) ''&quot;''
      (str_replace_char CHR ''>'' ''&gt;''
        (str_replace_char CHR ''<'' ''&lt;'' (str_replace_char CHR ''&'' ''&amp;'' s))))"
    by (rule str_replace_char_notin) simp
  then show ?thesis
    unfolding html_escape_def by (rule str_replace_char_notin) simp
qed

lemma ascii_lower_lt: "ascii_lower c = CHR ''<'' \<longleftrightarrow> c = CHR ''<''"
proof
  assume a: "ascii_lower c = CHR ''<''"
  show "c = CHR ''<''"
  proof (cases "65 \<le> (of_char c :: nat) \<and> (of_char c :: nat) \<le> 90")
    case True
    with a have "char_of ((of_char c :: nat) + 32) = CHR ''<''"
      by (simp add: ascii_lower_def)
    then have "(of_char (char_of ((of_char c :: nat) + 32)) :: nat) = of_char CHR ''<''"
      by simp
    then have "((of_char c :: nat) + 32) mod 256 = 60"
      by simp
    with True show ?thesis by simp
  next
    case False
    with a show ?thesis by (auto simp: ascii_lower_def)
  qed
next
  assume "c = CHR ''<''"
  then show "ascii_lower c = CHR ''<''" by (simp add: ascii_lower_def)
qed

lemma match_script_no_lt: "c \<noteq> CHR ''<'' \<Longrightarrow> match_script (c # cs) = None"
  using ascii_lower_lt [of c] ascii_lower_lt [of "CHR ''<''"]
  by (simp add: match_script_def)

lemma re_sub_script_no_lt: "CHR ''<'' \<notin> set s \<Longrightarrow> re_sub_script s = s"
proof (induction s)
  case Nil
  show ?case by simp
next
  case (Cons c cs)
  then have "c \<noteq> CHR ''<''" and "re_sub_script cs = cs"
    by auto
  then show ?case
    by (simp add: match_script_no_lt)
qed

text \<open>
  Claim C3, as amended. On the input \<^verbatim>\<open><script>alert(1)</script>Hello\<close> with maximum
  length 1000 the result is the escaped text
  \<^verbatim>\<open>&lt;script&gt;alert(1)&lt;/script&gt;Hello\<close>. The markup is escaped before the script
  pattern is tried, and the script pattern never matches in escaped text, so that pass
  leaves every escaped text as it is.
\<close>

theorem sanitize_text_script_example:
  "sanitize_text ''<script>alert(1)</script>Hello'' 1000
     = ''&lt;script&gt;alert(1)&lt;/script&gt;Hello''
   \<and> re_sub_script (html_escape text) = html_escape text"
proof
  show "sanitize_text ''<script>alert(1)</script>Hello'' 1000
     = ''&lt;script&gt;alert(1)&lt;/script&gt;Hello''"
    by code_simp
  show "re_sub_script (html_escape text) = html_escape text"
    by (rule re_sub_script_no_lt) (rule html_escape_no_lt)
qed

text \<open>
  Claim C3 as first stated, that the result on this input is \<^verbatim>\<open>Hello\<close>, does not
  hold.
\<close>

theorem sanitize_text_script_example_counterexample:
  "sanitize_text ''<script>alert(1)</script>Hello'' 1000 \<noteq> ''Hello''"
  by code_simp

text \<open>What each pass of the sanitiser does to the length of a text.\<close>

lemma py_slice_to_length:
  "int (length (py_slice_to n xs)) =
     (if 0 \<le> n then min n (int (length xs)) else max 0 (int (length xs) + n))"
  by (auto simp: py_slice_to_def)

lemma py_slice_to_whole: "py_slice_to (int (length xs)) (py_slice_to n xs) = py_slice_to n xs"
  by (simp add: py_slice_to_def)

lemma str_replace_char_append:
  "str_replace_char c r (xs @ ys) = str_replace_char c r xs @ str_replace_char c r ys"
  by (simp add: str_replace_char_def)

lemma html_escape_append: "html_escape (xs @ ys) = html_escape xs @ html_escape ys"
  by (simp add: html_escape_def str_replace_char_append)

lemma html_escape_char_length: "length (html_escape [c]) \<le> 6"
  by (simp add: html_escape_def str_replace_char_def)

lemma html_escape_length: "length (html_escape s) \<le> 6 * length s"
proof (induction s)
  case Nil
  show ?case by (simp add: html_escape_def str_replace_char_def)
next
  case (Cons c s)
  have "html_escape (c # s) = html_escape [c] @ html_escape s"
    using html_escape_append [of "[c]" s] by simp
  with Cons html_escape_char_length [of c] show ?case by simp
qed

lemma re_sub_script_length: "length (re_sub_script s) \<le> length s"
proof (induction s rule: re_sub_script.induct)
  case 1
  show ?case by simp
next
  case (2 c cs)
  show ?case
  proof (cases "match_script (c # cs)")
    case None
    with "2.IH"(1) show ?thesis by simp
  next
    case (Some r)
    with "2.IH"(2) match_script_shorter [OF Some] show ?thesis by simp
  qed
qed

lemma re_sub_event_handler_length: "length (re_sub_event_handler s) \<le> length s"
proof (induction s rule: re_sub_event_handler.induct)
  case 1
  show ?case by simp
next
  case (2 c cs)
  show ?case
  proof (cases "match_event_handler (c # cs)")
    case None
    with "2.IH"(1) show ?thesis by simp
  next
    case (Some r)
    with "2.IH"(2) match_event_handler_shorter [OF Some] show ?thesis by simp
  qed
qed

lemma py_strip_length: "length (py_strip s) \<le> length s"
proof -
  have "length (py_strip s) \<le> length (dropWhile py_isspace s)"
    using length_dropWhile_le [of py_isspace "rev (dropWhile py_isspace s)"]
    by (simp add: py_strip_def)
  also have "\<dots> \<le> length s"
    by (rule length_dropWhile_le)
  finally show ?thesis .
qed

lemma sanitize_text_pipeline:
  "sanitize_text text max_length =
     py_strip (re_sub_event_handler (re_sub_script
       (html_escape (py_slice_to max_length text))))"
proof (cases "text = []")
  case True
  then show ?thesis
    by (simp add: sanitize_text_def py_slice_to_def html_escape_def str_replace_char_def
        py_strip_def)
next
  case False
  then show ?thesis by (simp add: sanitize_text_def)
qed

text \<open>
  Claim C10. The maximum length does not bound the length of the result: three
  ampersands with maximum 3 give fifteen characters. The reason is the order of the
  passes. The text is cut first, and the result is that of sanitising the cut text with
  a maximum that cuts nothing. What the maximum bounds is the length of the cut text,
  before escaping: for a maximum that is not negative that length is the smaller of the
  maximum and the length of the input (a negative maximum cuts that many characters from
  the end). Escaping makes a text at most six times as long and the later passes only
  remove characters, so the result has at most six times the length of the cut text.
\<close>

theorem sanitize_text_exceeds_max_length:
  "sanitize_text ''&&&'' 3 = ''&amp;&amp;&amp;''
   \<and> (\<exists>text max_length. 0 \<le> max_length
          \<and> max_length < int (length (sanitize_text text max_length)))
   \<and> sanitize_text text max_length
       = sanitize_text (py_slice_to max_length text) (int (length text))
   \<and> int (length (py_slice_to max_length text))
       = (if 0 \<le> max_length then min max_length (int (length text))
          else max 0 (int (length text) + max_length))
   \<and> length (sanitize_text text max_length) \<le> 6 * length (py_slice_to max_length text)"
proof -
  have amp: "sanitize_text ''&&&'' 3 = ''&amp;&amp;&amp;''"
    by code_simp
  then have "(0::int) \<le> 3 \<and> 3 < int (length (sanitize_text ''&&&'' 3))"
    by simp
  then have longer: "\<exists>text max_length. 0 \<le> max_length
       \<and> max_length < int (length (sanitize_text text max_length))"
    by blast
  let ?cut = "py_slice_to max_length text"
  have "length ?cut \<le> length text"
    by (simp add: py_slice_to_def)
  then have "py_slice_to (int (length text)) ?cut = ?cut"
    by (simp add: py_slice_to_def)
  then have cut_first:
    "sanitize_text text max_length = sanitize_text ?cut (int (length text))"
    by (simp add: sanitize_text_pipeline)
  have a: "length (py_strip (re_sub_event_handler (re_sub_script (html_escape ?cut))))
             \<le> length (re_sub_event_handler (re_sub_script (html_escape ?cut)))"
    by (rule py_strip_length)
  have b: "length (re_sub_event_handler (re_sub_script (html_escape ?cut)))
             \<le> length (re_sub_script (html_escape ?cut))"
    by (rule re_sub_event_handler_length)
  have c: "length (re_sub_script (html_escape ?cut)) \<le> length (html_escape ?cut)"
    by (rule re_sub_script_length)
  have d: "length (html_escape ?cut) \<le> 6 * length ?cut"
    by (rule html_escape_length)
  from a b c d have bound: "length (sanitize_text text max_length) \<le> 6 * length ?cut"
    unfolding sanitize_text_pipeline by linarith
  have cut_length: "int (length ?cut)
       = (if 0 \<le> max_length then min max_length (int (length text))
          else max 0 (int (length text) + max_length))"
    by (rule py_slice_to_length)
  from amp longer cut_first cut_length bound
  show ?thesis by blast
qed

text \<open>
  Claim C9, as amended. The result is absent when the input is absent or empty, and also
  when no character of the input is a digit, a whitespace character, a hyphen, a plus
  sign or a parenthesis. In every other case the result is the text of the kept
  characters, in order, with leading and trailing whitespace removed; that text is empty
  when only whitespace was kept, as for an input of one space.
\<close>

theorem sanitize_phone_result:
  "sanitize_phone None = None
   \<and> sanitize_phone (Some []) = None
   \<and> (filter phone_char_kept p = [] \<longrightarrow> sanitize_phone (Some p) = None)
   \<and> (filter phone_char_kept p \<noteq> [] \<longrightarrow>
        sanitize_phone (Some p) = Some (py_strip (filter phone_char_kept p)))
   \<and> sanitize_phone (Some '' '') = Some []"
proof -
  have "sanitize_phone (Some '' '') = Some []"
    by code_simp
  moreover have "filter phone_char_kept p \<noteq> [] \<Longrightarrow> p \<noteq> []"
    by auto
  ultimately show ?thesis
    by (auto simp: sanitize_phone_def Let_def)
qed

theorem sanitize_phone_result_witness:
  "filter phone_char_kept ''abc'' = [] \<and> sanitize_phone (Some ''abc'') = None
   \<and> filter phone_char_kept ''+1 (555) 010-9999 x2'' \<noteq> []
   \<and> sanitize_phone (Some ''+1 (555) 010-9999 x2'') = Some ''+1 (555) 010-9999 2''"
proof -
  have a: "filter phone_char_kept ''abc'' = []"
    by code_simp
  have b: "filter phone_char_kept ''+1 (555) 010-9999 x2'' = ''+1 (555) 010-9999 2''"
    by code_simp
  have c: "py_strip ''+1 (555) 010-9999 2'' = ''+1 (555) 010-9999 2''"
    by code_simp
  show ?thesis
    using sanitize_phone_result [of "''abc''"] sanitize_phone_result [of "''+1 (555) 010-9999 x2''"]
      a b c
    by simp
qed

text \<open>
  Claim C9 as first stated, that every non-empty input gives a text, does not hold: the
  non-empty input \<^verbatim>\<open>abc\<close> gives the absent result.
\<close>

theorem sanitize_phone_result_counterexample:
  "''abc'' \<noteq> [] \<and> sanitize_phone (Some ''abc'') = None"
  by code_simp

section \<open>Properties of the CSRF token store\<close>

text \<open>
  Claim C4. Verification answers false for an absent or empty token, and false for a token
  whose digest is not in the store, leaving the store as it is. When the digest is in the
  store with an expiry earlier than the current instant, the entry is deleted and the
  answer is false. In the remaining case the answer is true and the store is unchanged:
  the token is not consumed, so a second verification of the same token, not later than
  its expiry, answers true again.
\<close>

theorem verify_csrf_token_cases:
  "verify_csrf_token sha256 None now csrf_tokens = (False, csrf_tokens)
   \<and> verify_csrf_token sha256 (Some []) now csrf_tokens = (False, csrf_tokens)
   \<and> (token \<noteq> [] \<and> csrf_tokens (sha256 token) = None \<longrightarrow>
        verify_csrf_token sha256 (Some token) now csrf_tokens = (False, csrf_tokens))
   \<and> (token \<noteq> [] \<and> csrf_tokens (sha256 token) = Some expiry \<and> expiry < now \<longrightarrow>
        verify_csrf_token sha256 (Some token) now csrf_tokens
          = (False, csrf_tokens(sha256 token := None)))
   \<and> (token \<noteq> [] \<and> csrf_tokens (sha256 token) = Some expiry \<and> \<not> expiry < now \<longrightarrow>
        verify_csrf_token sha256 (Some token) now csrf_tokens = (True, csrf_tokens))
   \<and> (token \<noteq> [] \<and> csrf_tokens (sha256 token) = Some expiry
        \<and> now \<le> expiry \<and> now' \<le> expiry \<longrightarrow>
        (case verify_csrf_token sha256 (Some token) now csrf_tokens of
           (first, store) \<Rightarrow>
             first \<and> verify_csrf_token sha256 (Some token) now' store = (True, csrf_tokens)))"
  by (simp add: verify_csrf_token_def)

theorem verify_csrf_token_cases_witness:
  "''tok'' \<noteq> [] \<and> [''kot'' \<mapsto> (100::int)] (rev ''abc'') = None
   \<and> verify_csrf_token rev (Some ''abc'') 50 [''kot'' \<mapsto> 100] = (False, [''kot'' \<mapsto> 100])
   \<and> [''kot'' \<mapsto> (100::int)] (rev ''tok'') = Some 100 \<and> (100::int) < 200
   \<and> verify_csrf_token rev (Some ''tok'') 200 [''kot'' \<mapsto> 100]
        = (False, [''kot'' \<mapsto> 100](''kot'' := None))
   \<and> \<not> (100::int) < 50 \<and> (50::int) \<le> 100 \<and> (60::int) \<le> 100
   \<and> verify_csrf_token rev (Some ''tok'') 50 [''kot'' \<mapsto> 100] = (True, [''kot'' \<mapsto> 100])
   \<and> (case verify_csrf_token rev (Some ''tok'') 50 [''kot'' \<mapsto> 100] of
        (first, store) \<Rightarrow>
          first \<and> verify_csrf_token rev (Some ''tok'') 60 store = (True, [''kot'' \<mapsto> 100]))"
  using verify_csrf_token_cases [of rev 50 "[''kot'' \<mapsto> 100]" "''abc''" 100 60]
    verify_csrf_token_cases [of rev 200 "[''kot'' \<mapsto> 100]" "''tok''" 100 60]
    verify_csrf_token_cases [of rev 50 "[''kot'' \<mapsto> 100]" "''tok''" 100 60]
  by auto

text \<open>The store after a token has been issued, entry by entry.\<close>

lemma generate_store:
  "snd (generate_csrf_token sha256 token now_clean now_issue csrf_tokens) h =
     (if h = sha256 token then Some (now_issue + timedelta_minutes TOKEN_EXPIRY_MINUTES)
      else case csrf_tokens h of
             None \<Rightarrow> None
           | Some expiry \<Rightarrow> if expiry < now_clean then None else Some expiry)"
  by (simp add: generate_csrf_token_def clean_expired_tokens_def Let_def)

lemma get_csrf_token_store:
  "snd (get_csrf_token sha256 token now_clean now_issue csrf_tokens)
     = snd (generate_csrf_token sha256 token now_clean now_issue csrf_tokens)"
  by (simp add: get_csrf_token_def split: prod.splits)

lemma get_csrf_token_expiry:
  "body_expiresAt (fst (get_csrf_token sha256 token now_clean now_issue csrf_tokens))
     = now_issue + timedelta_minutes TOKEN_EXPIRY_MINUTES"
  by (simp add: get_csrf_token_def generate_csrf_token_def Let_def)

text \<open>
  Claim C5. Refreshing is issuing: the handler returns what \<open>get_csrf_token\<close> returns,
  with the token, expiry and store of \<open>generate_csrf_token\<close>, and nothing removes the
  token issued before. After a token has been issued and a refresh has followed, the old
  token and the new one both verify, each at every instant that is not later than its
  own expiry. The clock is read in order: the refresh takes its expiry reading no
  earlier than the first issue did, and the verification follows the refresh.
\<close>

theorem refresh_keeps_previous_token:
  assumes "token1 \<noteq> []" and "token2 \<noteq> []"
    and "issue1 \<le> issue2"
    and "get_csrf_token sha256 token1 clean1 issue1 store0 = (r1, store1)"
    and "refresh_csrf_token sha256 token2 clean2 issue2 store1 = (r2, store2)"
    and "clean2 \<le> now"
  shows "refresh_csrf_token sha256 token2 clean2 issue2 store1
           = get_csrf_token sha256 token2 clean2 issue2 store1
         \<and> (body_token r2, body_expiresAt r2)
           = fst (generate_csrf_token sha256 token2 clean2 issue2 store1)
         \<and> store2 = snd (generate_csrf_token sha256 token2 clean2 issue2 store1)
         \<and> (now \<le> body_expiresAt r1 \<longrightarrow>
              verify_csrf_token sha256 (Some token1) now store2 = (True, store2))
         \<and> (now \<le> body_expiresAt r2 \<longrightarrow>
              verify_csrf_token sha256 (Some token2) now store2 = (True, store2))"
proof -
  let ?L = "timedelta_minutes TOKEN_EXPIRY_MINUTES"
  have same: "refresh_csrf_token sha256 token2 clean2 issue2 store1
           = get_csrf_token sha256 token2 clean2 issue2 store1"
    by (simp add: refresh_csrf_token_def)
  have e1: "body_expiresAt r1 = issue1 + ?L"
    using get_csrf_token_expiry [of sha256 token1 clean1 issue1 store0] assms(4) by simp
  have e2: "body_expiresAt r2 = issue2 + ?L"
    using get_csrf_token_expiry [of sha256 token2 clean2 issue2 store1] assms(5) same by simp
  have s1: "store1 = snd (generate_csrf_token sha256 token1 clean1 issue1 store0)"
    using get_csrf_token_store [of sha256 token1 clean1 issue1 store0] assms(4) by simp
  have s2: "store2 = snd (generate_csrf_token sha256 token2 clean2 issue2 store1)"
    using get_csrf_token_store [of sha256 token2 clean2 issue2 store1] assms(5) same by simp
  have body: "(body_token r2, body_expiresAt r2)
           = fst (generate_csrf_token sha256 token2 clean2 issue2 store1)"
    using assms(5) same
    by (auto simp: get_csrf_token_def generate_csrf_token_def Let_def)
  have new: "store2 (sha256 token2) = Some (issue2 + ?L)"
    unfolding s2 by (simp add: generate_store)
  have old1: "store1 (sha256 token1) = Some (issue1 + ?L)"
    unfolding s1 by (simp add: generate_store)
  have old: "now \<le> issue1 + ?L \<Longrightarrow>
      \<exists>e. store2 (sha256 token1) = Some e \<and> now \<le> e"
    unfolding s2 using old1 assms(3,6) by (simp add: generate_store)
  have v1: "now \<le> body_expiresAt r1 \<longrightarrow>
              verify_csrf_token sha256 (Some token1) now store2 = (True, store2)"
  proof
    assume "now \<le> body_expiresAt r1"
    with e1 old obtain e where "store2 (sha256 token1) = Some e" and "now \<le> e"
      by auto
    with assms(1) show "verify_csrf_token sha256 (Some token1) now store2 = (True, store2)"
      by (simp add: verify_csrf_token_def)
  qed
  have v2: "now \<le> body_expiresAt r2 \<longrightarrow>
              verify_csrf_token sha256 (Some token2) now store2 = (True, store2)"
    using new e2 assms(2) by (simp add: verify_csrf_token_def)
  from same body s2 v1 v2 show ?thesis by blast
qed

theorem refresh_keeps_previous_token_witness:
  "''aaa'' \<noteq> [] \<and> ''bbb'' \<noteq> [] \<and> (1::int) \<le> 11 \<and> (10::int) \<le> 20
   \<and> (case get_csrf_token rev ''aaa'' 0 1 Map.empty of
        (r1, store1) \<Rightarrow>
          (case refresh_csrf_token rev ''bbb'' 10 11 store1 of
             (r2, store2) \<Rightarrow>
               20 \<le> body_expiresAt r1 \<and> 20 \<le> body_expiresAt r2
               \<and> verify_csrf_token rev (Some ''aaa'') 20 store2 = (True, store2)
               \<and> verify_csrf_token rev (Some ''bbb'') 20 store2 = (True, store2)))"
proof -
  obtain r1 store1 where a: "get_csrf_token rev ''aaa'' 0 1 Map.empty = (r1, store1)"
    by fastforce
  obtain r2 store2 where b: "refresh_csrf_token rev ''bbb'' 10 11 store1 = (r2, store2)"
    by fastforce
  have e1: "20 \<le> body_expiresAt r1"
    using a get_csrf_token_expiry [of rev "''aaa''" 0 1 Map.empty]
    by (simp add: timedelta_minutes_def TOKEN_EXPIRY_MINUTES_def)
  have e2: "20 \<le> body_expiresAt r2"
    using b get_csrf_token_expiry [of rev "''bbb''" 10 11 store1]
    by (simp add: refresh_csrf_token_def timedelta_minutes_def TOKEN_EXPIRY_MINUTES_def)
  have h: "''aaa'' \<noteq> []" "''bbb'' \<noteq> []" "(1::int) \<le> 11" "(10::int) \<le> 20"
    by simp_all
  from refresh_keeps_previous_token [OF h(1) h(2) h(3) a b h(4)] e1 e2
  have v: "verify_csrf_token rev (Some ''aaa'') 20 store2 = (True, store2)"
    "verify_csrf_token rev (Some ''bbb'') 20 store2 = (True, store2)"
    by blast+
  from a b e1 e2 v show ?thesis by simp
qed

section \<open>Properties of the rate limiter\<close>

text \<open>Pruning, and the three outcomes of one call.\<close>

lemma py_min_nonempty: "py_min xs = Inr (Min (set xs))" if "xs \<noteq> []"
proof (cases xs)
  case Nil
  with that show ?thesis by simp
next
  case (Cons x rest)
  have "Min (set (x # rest)) = fold min rest x"
    by (rule Min.set_eq_fold)
  with Cons show ?thesis by (simp add: py_min_def)
qed

lemma py_int_positive: "0 < max (py_int r) 0 \<longleftrightarrow> 1 \<le> r"
proof (cases "0 \<le> r")
  case True
  then show ?thesis by (simp add: py_int_def zero_less_floor)
next
  case False
  then have "\<lceil>r\<rceil> \<le> 0"
    by (simp add: ceiling_le_zero)
  with False show ?thesis by (simp add: py_int_def)
qed

lemma in_window_append: "in_window w (xs @ ys) = in_window w xs @ in_window w ys"
  by (simp add: in_window_def)

lemma in_window_all: "\<forall>x\<in>set xs. w < x \<Longrightarrow> in_window w xs = xs"
  by (simp add: in_window_def)

lemma in_window_none: "\<forall>x\<in>set xs. x \<le> w \<Longrightarrow> in_window w xs = []"
  by (induction xs) (auto simp: in_window_def)

lemma stored_requests_update:
  "stored_requests (self\<lparr>requests := (requests self)(key \<mapsto> xs)\<rparr>) k =
     (if k = key then xs else stored_requests self k)"
  by (simp add: stored_requests_def)

lemma check_rate_limit_admitted:
  assumes "RATE_LIMIT_ENABLED cfg"
    and "check_rate_limit cfg now ip endpoint self = (Inr (True, 0), self')"
  shows "self' = self\<lparr>requests := (requests self)(rate_key ip endpoint \<mapsto>
            in_window (double_sub now (window_seconds self))
              (stored_requests self (rate_key ip endpoint)) @ [now])\<rparr>"
  using assms
  by (auto simp: check_rate_limit_def Let_def split: if_splits sum.splits)

lemma check_rate_limit_denied:
  assumes "RATE_LIMIT_ENABLED cfg"
    and "kept = in_window (double_sub now (window_seconds self))
                  (stored_requests self (rate_key ip endpoint))"
    and "get_limit cfg endpoint \<le> int (length kept)" and "kept \<noteq> []"
  shows "check_rate_limit cfg now ip endpoint self =
           (Inr (False,
                 max (py_int (double_sub (double_add (Min (set kept)) (window_seconds self))
                                now)) 0),
            self\<lparr>requests := (requests self)(rate_key ip endpoint \<mapsto> kept)\<rparr>)"
  using assms
  by (simp add: check_rate_limit_def Let_def py_min_nonempty)

lemma check_rate_limit_allowed:
  assumes "RATE_LIMIT_ENABLED cfg"
    and "kept = in_window (double_sub now (window_seconds self))
                  (stored_requests self (rate_key ip endpoint))"
    and "int (length kept) < get_limit cfg endpoint"
  shows "check_rate_limit cfg now ip endpoint self =
           (Inr (True, 0),
            self\<lparr>requests := (requests self)(rate_key ip endpoint \<mapsto> kept @ [now])\<rparr>)"
  using assms
  by (simp add: check_rate_limit_def Let_def)

text \<open>
  Rounding is visible in the retry-after value: with the oldest timestamp at
  \<open>124 - 1 / 2 ^ 46\<close> and the clock at 1023, less than a second remains, the sum
  rounds up to 1024 and the computed difference is 1.
\<close>

lemma double_rounding_example:
  "double_sub 1023 900 < 124 - 1 / 2 ^ 46
   \<and> (124 - 1 / 2 ^ 46 :: rat) + 900 - 1023 < 1
   \<and> double_add (124 - 1 / 2 ^ 46) 900 = 1024
   \<and> py_int (double_sub (double_add (124 - 1 / 2 ^ 46) 900) 1023) = 1"
  by code_simp

text \<open>
  A run of admitted calls appends its timestamps to the window of the key, as long as
  each of them is inside the window that every call of the run computes.
\<close>

lemma admitted_calls_accumulate:
  assumes "RATE_LIMIT_ENABLED cfg"
    and "check_rate_limit_calls cfg ip endpoint ts self = (rs, self')"
    and "\<forall>r\<in>set rs. r = Inr (True, 0)"
    and "stored_requests self (rate_key ip endpoint) = pre @ acc"
    and "\<forall>t\<in>set ts. \<forall>a\<in>set (acc @ ts). double_sub t (window_seconds self) < a"
  shows "\<exists>pre'. stored_requests self' (rate_key ip endpoint) = pre' @ acc @ ts
           \<and> window_seconds self' = window_seconds self"
  using assms(2-)
proof (induction ts arbitrary: self rs pre acc)
  case Nil
  then show ?case by auto
next
  case (Cons t ts)
  obtain r self1 where step: "check_rate_limit cfg t ip endpoint self = (r, self1)"
    by fastforce
  obtain rs' self2 where rest: "check_rate_limit_calls cfg ip endpoint ts self1 = (rs', self2)"
    by fastforce
  from Cons.prems(1) step rest have rs: "rs = r # rs'" and s2: "self2 = self'"
    by simp_all
  with Cons.prems(2) have r: "r = Inr (True, 0)" and rs': "\<forall>r\<in>set rs'. r = Inr (True, 0)"
    by simp_all
  let ?key = "rate_key ip endpoint"
  let ?W = "window_seconds self"
  have self1: "self1 = self\<lparr>requests := (requests self)(?key \<mapsto>
            in_window (double_sub t ?W) (stored_requests self ?key) @ [t])\<rparr>"
    using check_rate_limit_admitted [OF assms(1)] step r by simp
  have "\<forall>a\<in>set acc. double_sub t ?W < a"
    using Cons.prems(4) by simp
  then have "in_window (double_sub t ?W) (pre @ acc) = in_window (double_sub t ?W) pre @ acc"
    by (simp add: in_window_append in_window_all)
  then have st1: "stored_requests self1 ?key = in_window (double_sub t ?W) pre @ (acc @ [t])"
    using Cons.prems(3) by (simp add: self1 stored_requests_update)
  have w1: "window_seconds self1 = ?W"
    by (simp add: self1)
  have b1: "\<forall>t'\<in>set ts. \<forall>a\<in>set ((acc @ [t]) @ ts). double_sub t' (window_seconds self1) < a"
    using Cons.prems(4) w1 by simp
  from Cons.IH [OF rest [unfolded s2] rs' st1 b1] w1
  show ?case by auto
qed

text \<open>
  Claim C6, as amended. Rate limiting is enabled, the limit of the endpoint is 5 and the
  window is 900 seconds. Five calls on one key are admitted, and a sixth follows at a
  time \<open>now\<close>, the five timestamps being inside the window that each of the six calls
  computes. The sixth call is denied. Its retry-after value is
  \<open>max (int ((oldest + 900) - now)) 0\<close>, where \<open>oldest\<close> is the least timestamp left
  after pruning, the sum and the difference are floating-point results and \<^verbatim>\<open>int\<close>
  truncates to whole seconds. The value is never negative; it is positive exactly when
  the computed difference is at least 1, and it is 0 otherwise. Once every stored
  timestamp is at or before the start of the window that a later call computes, that
  call on the same key is admitted again.
\<close>

theorem sixth_call_denied_then_released:
  assumes en: "RATE_LIMIT_ENABLED cfg"
    and lim: "get_limit cfg endpoint = 5"
    and win: "window_seconds self = 900"
    and five: "length ts = 5"
    and calls: "check_rate_limit_calls cfg ip endpoint ts self = (rs, self5)"
    and adm: "\<forall>r\<in>set rs. r = Inr (True, 0)"
    and inside: "\<forall>t\<in>set (ts @ [now]). \<forall>a\<in>set ts. double_sub t 900 < a"
    and sixth: "check_rate_limit cfg now ip endpoint self5 = (r6, self6)"
    and elapsed: "\<forall>a\<in>set (stored_requests self6 (rate_key ip endpoint)).
                    a \<le> double_sub later 900"
  shows "let kept = in_window (double_sub now 900)
                      (stored_requests self5 (rate_key ip endpoint));
             oldest = Min (set kept);
             remaining = double_sub (double_add oldest 900) now
         in set ts \<subseteq> set kept
            \<and> r6 = Inr (False, max (py_int remaining) 0)
            \<and> 0 \<le> max (py_int remaining) 0
            \<and> (0 < max (py_int remaining) 0 \<longleftrightarrow> 1 \<le> remaining)
            \<and> fst (check_rate_limit cfg later ip endpoint self6) = Inr (True, 0)"
proof -
  let ?key = "rate_key ip endpoint"
  define kept where "kept = in_window (double_sub now 900) (stored_requests self5 ?key)"
  define oldest where "oldest = Min (set kept)"
  define remaining where "remaining = double_sub (double_add oldest 900) now"
  have b1: "\<forall>t\<in>set ts. \<forall>a\<in>set ([] @ ts). double_sub t (window_seconds self) < a"
    using inside win by simp
  from admitted_calls_accumulate [OF en calls adm _ b1, of "stored_requests self ?key"]
  obtain pre where st5: "stored_requests self5 ?key = pre @ ts"
    and w5: "window_seconds self5 = 900"
    using win by auto
  have "\<forall>a\<in>set ts. double_sub now 900 < a"
    using inside by simp
  then have "in_window (double_sub now 900) ts = ts"
    by (rule in_window_all)
  then have kept_eq: "kept = in_window (double_sub now 900) pre @ ts"
    by (simp add: kept_def st5 in_window_append)
  then have sub: "set ts \<subseteq> set kept"
    by simp
  have len: "get_limit cfg endpoint \<le> int (length kept)"
    using five lim kept_eq by simp
  have ne: "kept \<noteq> []"
    using five kept_eq by auto
  have k5: "kept = in_window (double_sub now (window_seconds self5)) (stored_requests self5 ?key)"
    by (simp add: kept_def w5)
  from check_rate_limit_denied [OF en k5 len ne] sixth
  have r6: "r6 = Inr (False, max (py_int remaining) 0)"
    and s6: "self6 = self5\<lparr>requests := (requests self5)(?key \<mapsto> kept)\<rparr>"
    by (simp_all add: w5 oldest_def remaining_def)
  have nonneg: "0 \<le> max (py_int remaining) 0"
    by simp
  have st6: "stored_requests self6 ?key = kept"
    by (simp add: s6 stored_requests_update)
  have w6: "window_seconds self6 = 900"
    by (simp add: s6 w5)
  have "\<forall>a\<in>set kept. a \<le> double_sub later 900"
    using elapsed st6 by simp
  then have none: "in_window (double_sub later 900) kept = []"
    by (rule in_window_none)
  have "check_rate_limit cfg later ip endpoint self6 =
          (Inr (True, 0), self6\<lparr>requests := (requests self6)(?key \<mapsto> [] @ [later])\<rparr>)"
    by (rule check_rate_limit_allowed [OF en]) (simp_all add: st6 w6 none lim)
  then have again: "fst (check_rate_limit cfg later ip endpoint self6) = Inr (True, 0)"
    by simp
  from sub r6 nonneg py_int_positive [of remaining] again show ?thesis
    unfolding Let_def kept_def [symmetric] oldest_def [symmetric] remaining_def [symmetric]
    by blast
qed

theorem sixth_call_denied_then_released_witness:
  "RATE_LIMIT_ENABLED default_settings
   \<and> get_limit default_settings ''/api/assessment/submit'' = 5
   \<and> window_seconds RateLimiter_init = 900
   \<and> length [1000, 1001, 1002, 1003, 1004 :: rat] = 5
   \<and> fst (check_rate_limit_calls default_settings ''10.0.0.1''
          ''/api/assessment/submit'' [1000, 1001, 1002, 1003, 1004] RateLimiter_init)
      = [Inr (True, 0), Inr (True, 0), Inr (True, 0), Inr (True, 0), Inr (True, 0)]
   \<and> double_sub 1200 900 < 1000 \<and> double_sub 1004 900 < 1000
   \<and> fst (check_rate_limit default_settings 1200 ''10.0.0.1'' ''/api/assessment/submit''
        (snd (check_rate_limit_calls default_settings ''10.0.0.1''
          ''/api/assessment/submit'' [1000, 1001, 1002, 1003, 1004] RateLimiter_init)))
      = Inr (False, 700)
   \<and> fst (check_rate_limit default_settings 2000 ''10.0.0.1'' ''/api/assessment/submit''
        (snd (check_rate_limit default_settings 1200 ''10.0.0.1'' ''/api/assessment/submit''
          (snd (check_rate_limit_calls default_settings ''10.0.0.1''
            ''/api/assessment/submit'' [1000, 1001, 1002, 1003, 1004] RateLimiter_init)))))
      = Inr (True, 0)"
proof -
  let ?ep = "''/api/assessment/submit''"
  let ?ip = "''10.0.0.1''"
  let ?ts = "[1000, 1001, 1002, 1003, 1004 :: rat]"
  let ?five = "check_rate_limit_calls default_settings ?ip ?ep ?ts RateLimiter_init"
  let ?six = "check_rate_limit default_settings 1200 ?ip ?ep (snd ?five)"
  have h1: "RATE_LIMIT_ENABLED default_settings" by code_simp
  have h2: "get_limit default_settings ?ep = 5" by code_simp
  have h3: "window_seconds RateLimiter_init = 900" by code_simp
  have h4: "length ?ts = 5" by simp
  have h5: "?five = (fst ?five, snd ?five)" by simp
  have r5: "fst ?five = [Inr (True, 0), Inr (True, 0), Inr (True, 0), Inr (True, 0), Inr (True, 0)]"
    by code_simp
  have h6: "\<forall>r\<in>set (fst ?five). r = Inr (True, 0)"
    unfolding r5 by simp
  have h7: "\<forall>t\<in>set (?ts @ [1200]). \<forall>a\<in>set ?ts. double_sub t 900 < a"
    by code_simp
  have h8: "?six = (fst ?six, snd ?six)" by simp
  have h9: "\<forall>a\<in>set (stored_requests (snd ?six) (rate_key ?ip ?ep)). a \<le> double_sub 2000 900"
    by code_simp
  have d: "fst ?six = Inr (False, 700)" by code_simp
  have e: "double_sub 1200 900 < 1000 \<and> double_sub 1004 900 < 1000" by code_simp
  from sixth_call_denied_then_released [OF h1 h2 h3 h4 h5 h6 h7 h8 h9]
  have "fst (check_rate_limit default_settings 2000 ?ip ?ep (snd ?six)) = Inr (True, 0)"
    unfolding Let_def by blast
  then show ?thesis
    using h1 h2 h3 h4 r5 d e by blast
qed

text \<open>
  Claim C6 as first stated, that the denied call has a positive retry-after value, does
  not hold: with five admitted calls at 1000 to 1004 seconds, the call at 1899.5 seconds
  is inside the window of all five and is denied with the value 0, since the half second
  that remains is truncated.
\<close>

theorem sixth_call_denied_then_released_counterexample:
  "RATE_LIMIT_ENABLED default_settings
   \<and> get_limit default_settings ''/api/assessment/submit'' = 5
   \<and> window_seconds RateLimiter_init = 900
   \<and> double_sub (3799 / 2) 900 < 1000
   \<and> double_sub (double_add 1000 900) (3799 / 2) = 1 / 2
   \<and> fst (check_rate_limit_calls default_settings ''10.0.0.1'' ''/api/assessment/submit''
         [1000, 1001, 1002, 1003, 1004, 3799 / 2] RateLimiter_init)
      = [Inr (True, 0), Inr (True, 0), Inr (True, 0), Inr (True, 0), Inr (True, 0),
         Inr (False, 0)]"
  by code_simp

text \<open>
  The key of a pair is the client, a colon and the endpoint. A client address contains
  no slash and an endpoint path begins with one, so the first slash of the key is where
  the endpoint begins, and the key determines the pair.
\<close>

lemma separator_split_unique:
  "x \<notin> set xs \<Longrightarrow> x \<notin> set xs' \<Longrightarrow> xs @ x # ys = xs' @ x # ys'
     \<Longrightarrow> xs = xs' \<and> ys = ys'"
proof (induction xs arbitrary: xs')
  case Nil
  then show ?case by (cases xs') auto
next
  case (Cons a xs)
  then show ?case by (cases xs') auto
qed

lemma rate_key_inject_slash:
  assumes "CHR ''/'' \<notin> set ip1" and "CHR ''/'' \<notin> set ip2"
    and "rate_key ip1 (CHR ''/'' # e1) = rate_key ip2 (CHR ''/'' # e2)"
  shows "ip1 = ip2 \<and> e1 = e2"
proof -
  have "(ip1 @ '':'') @ CHR ''/'' # e1 = (ip2 @ '':'') @ CHR ''/'' # e2"
    using assms(3) by (simp add: rate_key_def)
  moreover have "CHR ''/'' \<notin> set (ip1 @ '':'')" "CHR ''/'' \<notin> set (ip2 @ '':'')"
    using assms(1,2) by simp_all
  ultimately have "ip1 @ '':'' = ip2 @ '':'' \<and> e1 = e2"
    by (intro separator_split_unique)
  then show ?thesis by simp
qed

lemma str_startswith_slash: "str_startswith ''/'' ep \<Longrightarrow> \<exists>e. ep = CHR ''/'' # e"
  by (cases ep) simp_all

lemma rate_key_distinct:
  assumes "(ip1, ep1) \<noteq> (ip2, ep2)"
    and "CHR ''/'' \<notin> set ip1" and "CHR ''/'' \<notin> set ip2"
    and "str_startswith ''/'' ep1" and "str_startswith ''/'' ep2"
  shows "rate_key ip1 ep1 \<noteq> rate_key ip2 ep2"
proof
  assume eq: "rate_key ip1 ep1 = rate_key ip2 ep2"
  obtain e1 e2 where e: "ep1 = CHR ''/'' # e1" "ep2 = CHR ''/'' # e2"
    using str_startswith_slash [OF assms(4)] str_startswith_slash [OF assms(5)] by blast
  from eq have "ip1 = ip2 \<and> e1 = e2"
    unfolding e by (rule rate_key_inject_slash [OF assms(2,3)])
  with e assms(1) show False by blast
qed

text \<open>A call reads and writes the window of its own key only.\<close>

lemma check_rate_limit_frame:
  assumes "rate_key ip1 ep1 \<noteq> key2"
    and "check_rate_limit cfg now ip1 ep1 self = (r, self')"
  shows "requests self' key2 = requests self key2 \<and> window_seconds self' = window_seconds self"
  using assms
  by (auto simp: check_rate_limit_def Let_def split: if_splits sum.splits)

lemma check_rate_limit_calls_frame:
  assumes "rate_key ip1 ep1 \<noteq> key2"
  shows "check_rate_limit_calls cfg ip1 ep1 ts self = (rs, self') \<Longrightarrow>
    requests self' key2 = requests self key2 \<and> window_seconds self' = window_seconds self"
proof (induction ts arbitrary: self rs)
  case Nil
  then show ?case by simp
next
  case (Cons t ts)
  obtain r self1 where step: "check_rate_limit cfg t ip1 ep1 self = (r, self1)"
    by fastforce
  obtain rs' self2 where rest: "check_rate_limit_calls cfg ip1 ep1 ts self1 = (rs', self2)"
    by fastforce
  from Cons.prems step rest have "self2 = self'"
    by simp
  with Cons.IH [of self1 rs'] rest check_rate_limit_frame [OF assms step]
  show ?case by simp
qed

lemma check_rate_limit_depends:
  assumes "requests a (rate_key ip endpoint) = requests b (rate_key ip endpoint)"
    and "window_seconds a = window_seconds b"
  shows "check_rate_limit cfg now ip endpoint a = (r, a') \<Longrightarrow>
         check_rate_limit cfg now ip endpoint b = (r', b') \<Longrightarrow>
         r = r' \<and> requests a' (rate_key ip endpoint) = requests b' (rate_key ip endpoint)"
  using assms
  by (auto simp: check_rate_limit_def Let_def stored_requests_def split: if_splits sum.splits)

text \<open>
  Claim C7. The two pairs are distinct, the clients are addresses (no slash occurs in
  them) and the endpoints are paths (each begins with a slash). Then a call on the first
  pair, and any run of calls on it, leaves the stored window of the second pair as it
  was, and the next call on the second pair has the same outcome, and leaves the same
  window for its key, as if the calls on the first pair had not been made. So exhausting
  the limit of the first pair never makes a call on the second pair denied.
\<close>

theorem rate_limit_key_isolation:
  assumes distinct: "(ip1, ep1) \<noteq> (ip2, ep2)"
    and clients: "CHR ''/'' \<notin> set ip1" "CHR ''/'' \<notin> set ip2"
    and paths: "str_startswith ''/'' ep1" "str_startswith ''/'' ep2"
  shows "requests (snd (check_rate_limit cfg t ip1 ep1 self)) (rate_key ip2 ep2)
           = requests self (rate_key ip2 ep2)
         \<and> requests (snd (check_rate_limit_calls cfg ip1 ep1 ts self)) (rate_key ip2 ep2)
           = requests self (rate_key ip2 ep2)
         \<and> fst (check_rate_limit cfg now ip2 ep2
                  (snd (check_rate_limit_calls cfg ip1 ep1 ts self)))
           = fst (check_rate_limit cfg now ip2 ep2 self)
         \<and> requests (snd (check_rate_limit cfg now ip2 ep2
                  (snd (check_rate_limit_calls cfg ip1 ep1 ts self)))) (rate_key ip2 ep2)
           = requests (snd (check_rate_limit cfg now ip2 ep2 self)) (rate_key ip2 ep2)"
proof -
  let ?key2 = "rate_key ip2 ep2"
  have ne: "rate_key ip1 ep1 \<noteq> ?key2"
    by (rule rate_key_distinct [OF distinct clients paths])
  obtain r1 s1 where one: "check_rate_limit cfg t ip1 ep1 self = (r1, s1)"
    by (cases "check_rate_limit cfg t ip1 ep1 self") blast
  obtain rs self' where run: "check_rate_limit_calls cfg ip1 ep1 ts self = (rs, self')"
    by (cases "check_rate_limit_calls cfg ip1 ep1 ts self") blast
  obtain ra sa where a: "check_rate_limit cfg now ip2 ep2 self' = (ra, sa)"
    by (cases "check_rate_limit cfg now ip2 ep2 self'") blast
  obtain rb sb where b: "check_rate_limit cfg now ip2 ep2 self = (rb, sb)"
    by (cases "check_rate_limit cfg now ip2 ep2 self") blast
  from check_rate_limit_frame [OF ne one]
  have f1: "requests s1 ?key2 = requests self ?key2"
    by blast
  from check_rate_limit_calls_frame [OF ne run]
  have f: "requests self' ?key2 = requests self ?key2"
    and w: "window_seconds self' = window_seconds self"
    by blast+
  from check_rate_limit_depends [OF f w a b]
  have d: "ra = rb" "requests sa ?key2 = requests sb ?key2"
    by blast+
  show ?thesis
    unfolding one run a b fst_conv snd_conv using f1 f d by blast
qed

theorem rate_limit_key_isolation_witness:
  "(''::1'', ''/api/email/send-results'') \<noteq> (''10.0.0.1'', ''/api/email/send-results'')
   \<and> CHR ''/'' \<notin> set ''::1'' \<and> CHR ''/'' \<notin> set ''10.0.0.1''
   \<and> str_startswith ''/'' ''/api/email/send-results''
   \<and> fst (check_rate_limit_calls default_settings ''::1'' ''/api/email/send-results''
           [1000, 1001, 1002, 1003] RateLimiter_init)
      = [Inr (True, 0), Inr (True, 0), Inr (True, 0), Inr (False, 897)]
   \<and> fst (check_rate_limit default_settings 1003 ''10.0.0.1'' ''/api/email/send-results''
        (snd (check_rate_limit_calls default_settings ''::1'' ''/api/email/send-results''
           [1000, 1001, 1002, 1003] RateLimiter_init)))
      = Inr (True, 0)"
proof -
  let ?ep = "''/api/email/send-results''"
  let ?run = "check_rate_limit_calls default_settings ''::1'' ?ep
                [1000, 1001, 1002, 1003] RateLimiter_init"
  have a: "fst (check_rate_limit default_settings 1003 ''10.0.0.1'' ?ep RateLimiter_init)
             = Inr (True, 0)"
    by code_simp
  have r: "fst ?run = [Inr (True, 0), Inr (True, 0), Inr (True, 0), Inr (False, 897)]"
    by code_simp
  have h1: "(''::1'', ?ep) \<noteq> (''10.0.0.1'', ?ep)" by simp
  have h2: "CHR ''/'' \<notin> set ''::1''" by simp
  have h3: "CHR ''/'' \<notin> set ''10.0.0.1''" by simp
  have h4: "str_startswith ''/'' ?ep" by simp
  from rate_limit_key_isolation [OF h1 h2 h3 h4 h4, of default_settings 1000 RateLimiter_init
      "[1000, 1001, 1002, 1003]" 1003]
  have "fst (check_rate_limit default_settings 1003 ''10.0.0.1'' ?ep (snd ?run))
      = fst (check_rate_limit default_settings 1003 ''10.0.0.1'' ?ep RateLimiter_init)"
    by blast
  with a r h1 h2 h3 h4 show ?thesis by simp
qed

text \<open>What \<open>get_remaining\<close> returns and what it stores.\<close>

lemma get_remaining_result:
  "fst (get_remaining cfg now ip endpoint self) =
     (case requests self (rate_key ip endpoint) of
        None \<Rightarrow> get_limit cfg endpoint
      | Some reqs \<Rightarrow>
          max (get_limit cfg endpoint
                 - int (length (in_window (double_sub now (window_seconds self)) reqs))) 0)"
  by (simp add: get_remaining_def Let_def split: option.splits)

lemma get_remaining_stored:
  "stored_requests (snd (get_remaining cfg now ip endpoint self)) k =
     (if k = rate_key ip endpoint
      then in_window (double_sub now (window_seconds self)) (stored_requests self k)
      else stored_requests self k)"
  by (simp add: get_remaining_def Let_def stored_requests_def in_window_def
      split: option.splits)

text \<open>
  Claim C8. The limit configured for the endpoint is a number of requests, so it is not
  negative. The remaining count is then \<open>max 0 (limit - n)\<close>, where \<open>n\<close> is the number
  of stored timestamps of the key that are inside the window; it is never negative and
  never above the limit. The call records no timestamp: the window of the key is
  replaced by its pruned part and every other window is unchanged, so no stored window
  grows.
\<close>

theorem get_remaining_bounds:
  assumes "0 \<le> get_limit cfg endpoint"
  shows "fst (get_remaining cfg now ip endpoint self)
           = max 0 (get_limit cfg endpoint
               - int (length (in_window (double_sub now (window_seconds self))
                                (stored_requests self (rate_key ip endpoint)))))
         \<and> 0 \<le> fst (get_remaining cfg now ip endpoint self)
         \<and> fst (get_remaining cfg now ip endpoint self) \<le> get_limit cfg endpoint
         \<and> stored_requests (snd (get_remaining cfg now ip endpoint self)) k
             = (if k = rate_key ip endpoint
                then in_window (double_sub now (window_seconds self)) (stored_requests self k)
                else stored_requests self k)
         \<and> length (stored_requests (snd (get_remaining cfg now ip endpoint self)) k)
             \<le> length (stored_requests self k)
         \<and> window_seconds (snd (get_remaining cfg now ip endpoint self)) = window_seconds self"
proof -
  have r: "fst (get_remaining cfg now ip endpoint self)
           = max 0 (get_limit cfg endpoint
               - int (length (in_window (double_sub now (window_seconds self))
                                (stored_requests self (rate_key ip endpoint)))))"
    using assms
    by (simp add: get_remaining_result stored_requests_def in_window_def max.commute
        split: option.splits)
  have len: "length (stored_requests (snd (get_remaining cfg now ip endpoint self)) k)
             \<le> length (stored_requests self k)"
    by (simp add: get_remaining_stored in_window_def)
  have w: "window_seconds (snd (get_remaining cfg now ip endpoint self)) = window_seconds self"
    by (simp add: get_remaining_def Let_def split: option.splits)
  from r assms have "0 \<le> fst (get_remaining cfg now ip endpoint self)"
    and "fst (get_remaining cfg now ip endpoint self) \<le> get_limit cfg endpoint"
    by simp_all
  with r len w get_remaining_stored [of cfg now ip endpoint self k]
  show ?thesis by blast
qed

theorem get_remaining_bounds_witness:
  "0 \<le> get_limit default_settings ''/api/email/send-results''
   \<and> fst (get_remaining default_settings 1950 ''10.0.0.1'' ''/api/email/send-results''
        (snd (check_rate_limit_calls default_settings ''10.0.0.1'' ''/api/email/send-results''
           [1000, 1100] RateLimiter_init))) = 2
   \<and> stored_requests
        (snd (get_remaining default_settings 1950 ''10.0.0.1'' ''/api/email/send-results''
          (snd (check_rate_limit_calls default_settings ''10.0.0.1''
             ''/api/email/send-results'' [1000, 1100] RateLimiter_init))))
        (rate_key ''10.0.0.1'' ''/api/email/send-results'') = [1100]"
proof -
  let ?ep = "''/api/email/send-results''"
  let ?s = "snd (check_rate_limit_calls default_settings ''10.0.0.1'' ?ep
           [1000, 1100] RateLimiter_init)"
  have h: "0 \<le> get_limit default_settings ?ep" by code_simp
  have l: "get_limit default_settings ?ep = 3" by code_simp
  have w: "window_seconds ?s = 900" by code_simp
  have s: "stored_requests ?s (rate_key ''10.0.0.1'' ?ep) = [1000, 1100]" by code_simp
  have i: "in_window (double_sub 1950 900) [1000, 1100] = [1100]" by code_simp
  have k: "rate_key ''10.0.0.1'' ?ep = rate_key ''10.0.0.1'' ?ep" by simp
  from get_remaining_bounds [OF h, of 1950 "''10.0.0.1''" ?s "rate_key ''10.0.0.1'' ?ep"]
  have r: "fst (get_remaining default_settings 1950 ''10.0.0.1'' ?ep ?s)
             = max 0 (get_limit default_settings ?ep
                 - int (length (in_window (double_sub 1950 (window_seconds ?s))
                                  (stored_requests ?s (rate_key ''10.0.0.1'' ?ep)))))"
    and st: "stored_requests (snd (get_remaining default_settings 1950 ''10.0.0.1'' ?ep ?s))
               (rate_key ''10.0.0.1'' ?ep)
             = (if rate_key ''10.0.0.1'' ?ep = rate_key ''10.0.0.1'' ?ep
                then in_window (double_sub 1950 (window_seconds ?s))
                       (stored_requests ?s (rate_key ''10.0.0.1'' ?ep))
                else stored_requests ?s (rate_key ''10.0.0.1'' ?ep))"
    by blast+
  have r': "fst (get_remaining default_settings 1950 ''10.0.0.1'' ?ep ?s) = 2"
    unfolding r l w s i by simp
  have st': "stored_requests (snd (get_remaining default_settings 1950 ''10.0.0.1'' ?ep ?s))
               (rate_key ''10.0.0.1'' ?ep) = [1100]"
    unfolding st w s i by simp
  from h r' st' show ?thesis by blast
qed

end
